theory Spec2Isabelle
  imports Complex_Main "HOL-Library.Log_Nat"
begin

section \<open>Go values used by the RAG module\<close>

text \<open>
  The module verified here is package \<open>rag\<close>, present twice in the repository:
  \<open>src/prod/pkg/rag/rag.go\<close> (OpenAI only) and the copy inside \<open>src/cmd/scan.go\<close>
  (lines 395-641), which adds the \<open>useOpenAI\<close> flag and the Claude client. The two
  copies agree on every function modelled below except \<open>getEmbedding\<close> and
  \<open>generateAnswer\<close>, where the second copy branches on \<open>useOpenAI\<close>; the first copy is
  the second one with \<open>useOpenAI = true\<close>.
\<close>

subsection \<open>Errors and panics\<close>

text \<open>
  A Go function of this module ends in one of three ways: it returns its value, it returns
  a non-nil \<open>error\<close> (modelled by the message that \<open>%v\<close> prints), or a run-time panic
  unwinds it (an index out of range).
\<close>

datatype error = Error string | Panic string

definition indexOutOfRange :: error where
  "indexOutOfRange = Panic ''runtime error: index out of range''"

subsection \<open>float32\<close>

text \<open>
  A \<open>float32\<close> is an IEEE 754 binary32 value: a NaN, an infinity with its sign, or a finite
  value with its sign and its magnitude (so that \<open>+0\<close> and \<open>-0\<close> are distinct). The sign is
  \<open>True\<close> for negative. Arithmetic rounds to nearest, ties to even, each operation on its
  own (the evaluation of the amd64 compiler, which does not fuse multiply and add). Go's
  floating-point division does not panic on a zero divisor: it yields an infinity or a NaN.
\<close>

datatype float32 = NaN | Infinity bool | Finite bool rat

definition ilog2 :: "rat \<Rightarrow> int" where
  \<comment> \<open>\<open>\<lfloor>log\<^sub>2 q\<rfloor>\<close> for \<open>q > 0\<close>\<close>
  "ilog2 q = (if 1 \<le> q then int (floorlog 2 (nat \<lfloor>q\<rfloor>)) - 1
              else - int (floorlog 2 (nat \<lceil>1 / q\<rceil> - 1)))"

definition roundEven :: "rat \<Rightarrow> int" where
  "roundEven x = (let f = \<lfloor>x\<rfloor>; d = x - of_int f in
     if d < 1 / 2 then f else if 1 / 2 < d then f + 1 else if even f then f else f + 1)"

definition pow2 :: "int \<Rightarrow> rat" where
  "pow2 e = (if 0 \<le> e then 2 ^ nat e else 1 / 2 ^ nat (- e))"

definition round32 :: "bool \<Rightarrow> rat \<Rightarrow> float32" where
  \<comment> \<open>the binary32 value nearest to the magnitude \<open>q \<ge> 0\<close>, with sign \<open>s\<close>: 24 significant
      bits, least exponent \<open>-126\<close> (subnormals below it), overflow to an infinity\<close>
  "round32 s q = (if q = 0 then Finite s 0 else
     let e = max (ilog2 q) (- 126); ulp = pow2 (e - 23);
         r = of_int (roundEven (q / ulp)) * ulp
     in if 2 ^ 128 \<le> r then Infinity s else Finite s r)"

definition float32_of :: "rat \<Rightarrow> float32" where
  \<comment> \<open>the \<open>float32\<close> that a constant denotes\<close>
  "float32_of q = round32 (q < 0) \<bar>q\<bar>"

definition signed :: "bool \<Rightarrow> rat \<Rightarrow> rat" where
  "signed s p = (if s then - p else p)"

fun fmul :: "float32 \<Rightarrow> float32 \<Rightarrow> float32" where
  "fmul NaN y = NaN"
| "fmul x NaN = NaN"
| "fmul (Infinity s) (Infinity t) = Infinity (s \<noteq> t)"
| "fmul (Infinity s) (Finite t q) = (if q = 0 then NaN else Infinity (s \<noteq> t))"
| "fmul (Finite s p) (Infinity t) = (if p = 0 then NaN else Infinity (s \<noteq> t))"
| "fmul (Finite s p) (Finite t q) = round32 (s \<noteq> t) (p * q)"

fun fadd :: "float32 \<Rightarrow> float32 \<Rightarrow> float32" where
  "fadd NaN y = NaN"
| "fadd x NaN = NaN"
| "fadd (Infinity s) (Infinity t) = (if s = t then Infinity s else NaN)"
| "fadd (Infinity s) (Finite t q) = Infinity s"
| "fadd (Finite s p) (Infinity t) = Infinity t"
| "fadd (Finite s p) (Finite t q) =
     (let v = signed s p + signed t q
      in if v = 0 then Finite (s \<and> t) 0 else round32 (v < 0) \<bar>v\<bar>)"

fun fdiv :: "float32 \<Rightarrow> float32 \<Rightarrow> float32" where
  "fdiv NaN y = NaN"
| "fdiv x NaN = NaN"
| "fdiv (Infinity s) (Infinity t) = NaN"
| "fdiv (Infinity s) (Finite t q) = Infinity (s \<noteq> t)"
| "fdiv (Finite s p) (Infinity t) = Finite (s \<noteq> t) 0"
| "fdiv (Finite s p) (Finite t q) =
     (if q = 0 then (if p = 0 then NaN else Infinity (s \<noteq> t))
      else round32 (s \<noteq> t) (p / q))"

definition isZero :: "float32 \<Rightarrow> bool" where
  \<comment> \<open>Go's \<open>x == 0\<close>: true of \<open>+0\<close> and of \<open>-0\<close>\<close>
  "isZero x = (case x of Finite s p \<Rightarrow> p = 0 | _ \<Rightarrow> False)"

definition zero32 :: float32 where
  \<comment> \<open>the zero value of a \<open>float32\<close> variable\<close>
  "zero32 = Finite False 0"

subsection \<open>cosineSimilarity and sqrt\<close>

text \<open>
  \<^verbatim>\<open>func sqrt(x float32) float32 { return float32(float64(x)) }\<close>
  widens to \<open>float64\<close> and narrows back: both conversions are exact on a \<open>float32\<close>, so the
  function returns its argument. It takes no square root.
\<close>

definition sqrt32 :: "float32 \<Rightarrow> float32" where
  "sqrt32 x = x"

text \<open>
  \<^verbatim>\<open>for i := range a { dotProduct += a[i] * b[i]; normA += a[i] * a[i]; normB += b[i] * b[i] }\<close>
  The loop runs over the indices of \<open>a\<close> and reads \<open>b[i]\<close>: it panics at the first index
  that \<open>b\<close> does not have, and never looks at the elements of \<open>b\<close> beyond the length of
  \<open>a\<close>. The accumulators are \<open>(dotProduct, normA, normB)\<close>.
\<close>

fun cosineLoop ::
  "float32 list \<Rightarrow> float32 list \<Rightarrow> float32 \<times> float32 \<times> float32
    \<Rightarrow> error + float32 \<times> float32 \<times> float32" where
  "cosineLoop [] b acc = Inr acc"
| "cosineLoop (x # a) [] acc = Inl indexOutOfRange"
| "cosineLoop (x # a) (y # b) (dotProduct, normA, normB) =
     cosineLoop a b
       (fadd dotProduct (fmul x y), fadd normA (fmul x x), fadd normB (fmul y y))"

definition cosineSimilarity :: "float32 list \<Rightarrow> float32 list \<Rightarrow> error + float32" where
  "cosineSimilarity a b =
     (case cosineLoop a b (zero32, zero32, zero32) of
        Inl e \<Rightarrow> Inl e
      | Inr (dotProduct, normA, normB) \<Rightarrow>
          Inr (fdiv dotProduct (fmul (sqrt32 normA) (sqrt32 normB))))"

section \<open>The RAG module\<close>

subsection \<open>Data\<close>

record Document =
  Content :: string
  Source :: string
  Type :: string

text \<open>
  The struct \<open>RAG\<close>. Its two client pointers are the handles of the external services;
  the services themselves are the parameter \<open>C\<close> of the functions below. \<open>chunkSize\<close> and
  \<open>maxTokens\<close> are Go \<open>int\<close>s that the module only stores and compares, never computes
  with.
\<close>

record RAG =
  documents :: "Document list"
  embeddings :: "string \<rightharpoonup> float32 list"
  chunkSize :: int
  maxTokens :: int
  useOpenAI :: bool

text \<open>
  The external services, over a state \<open>'w\<close> of the outside world that each call may read
  and change. A call returns the error message of a non-nil \<open>err\<close>, or the part of the
  response that the module reads: the embeddings of \<open>resp.Data\<close>, the message contents of
  \<open>resp.Choices\<close>, the text of \<open>resp.GetFirstContentText()\<close>.
\<close>

record 'w clients =
  CreateEmbeddings :: "string \<Rightarrow> 'w \<Rightarrow> (string + float32 list list) \<times> 'w"
  CreateChatCompletion :: "string \<Rightarrow> string \<Rightarrow> int \<Rightarrow> 'w \<Rightarrow> (string + string list) \<times> 'w"
  CreateMessages :: "string \<Rightarrow> int \<Rightarrow> 'w \<Rightarrow> (string + string) \<times> 'w"

definition NewRAG :: "string \<Rightarrow> RAG" where
  "NewRAG apiKey =
     \<lparr>documents = [], embeddings = Map.empty, chunkSize = 1000, maxTokens = 4000,
      useOpenAI = True\<rparr>"

definition NewRAGWithClaude :: "string \<Rightarrow> RAG" where
  "NewRAGWithClaude claudeKey =
     \<lparr>documents = [], embeddings = Map.empty, chunkSize = 1000, maxTokens = 4000,
      useOpenAI = False\<rparr>"

definition SetChunkSize :: "int \<Rightarrow> RAG \<Rightarrow> RAG" where
  "SetChunkSize size' r = r\<lparr>chunkSize := size'\<rparr>"

definition SetMaxTokens :: "int \<Rightarrow> RAG \<Rightarrow> RAG" where
  "SetMaxTokens tokens r = r\<lparr>maxTokens := tokens\<rparr>"

text \<open>
  The caller of the setters, in the \<open>RunE\<close> of the query command
  (\<open>src/unnamed/part_003\<close> lines 47-53, \<open>src/prod/cmd/scan.go\<close> lines 165-170):
  \<^verbatim>\<open>if chunkSize := viper.GetInt("rag.chunk_size"); chunkSize > 0 { ragSystem.SetChunkSize(chunkSize) }\<close>
  \<^verbatim>\<open>if maxTokens := viper.GetInt("rag.max_tokens"); maxTokens > 0 { ragSystem.SetMaxTokens(maxTokens) }\<close>
\<close>

definition configureRAG :: "int \<Rightarrow> int \<Rightarrow> RAG \<Rightarrow> RAG" where
  "configureRAG chunk_size max_tokens r =
     (let r1 = (if chunk_size > 0 then SetChunkSize chunk_size r else r)
      in if max_tokens > 0 then SetMaxTokens max_tokens r1 else r1)"

subsection \<open>strings.Fields and strings.Join\<close>

text \<open>
  A Go string is a sequence of bytes, here a \<open>string\<close>. \<open>strings.Fields\<close> splits it around
  each run of white space as \<open>unicode.IsSpace\<close> defines it on the UTF-8 decoding of the
  string. \<open>spaceWidth s\<close> is the number of bytes of the white-space character that \<open>s\<close>
  starts with, and \<open>0\<close> when it starts with none: U+0009 to U+000D and U+0020 (one byte),
  U+0085 and U+00A0 (\<open>C2 85\<close>, \<open>C2 A0\<close>), U+1680 (\<open>E1 9A 80\<close>), U+2000 to U+200A, U+2028,
  U+2029, U+202F (\<open>E2 80 80\<close> to \<open>E2 80 8A\<close>, \<open>E2 80 A8\<close>, \<open>E2 80 A9\<close>, \<open>E2 80 AF\<close>), U+205F
  (\<open>E2 81 9F\<close>) and U+3000 (\<open>E3 80 80\<close>). No encoding of a white-space character starts
  with a continuation byte, so looking for one at every byte finds exactly those that the
  decoder finds.
\<close>

definition spaceWidth :: "string \<Rightarrow> nat" where
  "spaceWidth s =
     (case map of_char s :: nat list of
        [] \<Rightarrow> 0
      | b0 # bs \<Rightarrow>
          if (9 \<le> b0 \<and> b0 \<le> 13) \<or> b0 = 32 then 1
          else if b0 = 194 then
            (case bs of b1 # _ \<Rightarrow> if b1 = 133 \<or> b1 = 160 then 2 else 0 | [] \<Rightarrow> 0)
          else if b0 = 225 then
            (case bs of b1 # b2 # _ \<Rightarrow> if b1 = 154 \<and> b2 = 128 then 3 else 0 | _ \<Rightarrow> 0)
          else if b0 = 226 then
            (case bs of
               b1 # b2 # _ \<Rightarrow>
                 if b1 = 128 \<and> ((128 \<le> b2 \<and> b2 \<le> 138) \<or> b2 = 168 \<or> b2 = 169 \<or> b2 = 175)
                    \<or> b1 = 129 \<and> b2 = 159
                 then 3 else 0
             | _ \<Rightarrow> 0)
          else if b0 = 227 then
            (case bs of b1 # b2 # _ \<Rightarrow> if b1 = 128 \<and> b2 = 128 then 3 else 0 | _ \<Rightarrow> 0)
          else 0)"

text \<open>
  The scan of \<open>strings.Fields\<close>: \<open>w\<close> is the field being read. A white-space character
  ends it (an empty field is not emitted) and is skipped; any other byte joins it.
\<close>

function fieldsLoop :: "string \<Rightarrow> string \<Rightarrow> string list" where
  "fieldsLoop w [] = (if w = [] then [] else [w])"
| "fieldsLoop w (c # cs) =
     (if 0 < spaceWidth (c # cs)
      then (if w = [] then [] else [w]) @ fieldsLoop [] (drop (spaceWidth (c # cs)) (c # cs))
      else fieldsLoop (w @ [c]) cs)"
  by pat_completeness auto
termination
  by (relation "measure (\<lambda>(w, s). length s)") auto

definition Fields :: "string \<Rightarrow> string list" where
  "Fields s = fieldsLoop [] s"

fun Join :: "string list \<Rightarrow> string \<Rightarrow> string" where
  "Join [] sep = []"
| "Join [x] sep = x"
| "Join (x # y # ys) sep = x @ sep @ Join (y # ys) sep"

subsection \<open>splitIntoChunks\<close>

text \<open>
  \<^verbatim>\<open>for _, word := range words {
      currentChunk = append(currentChunk, word)
      if len(currentChunk) >= r.chunkSize {
          chunks = append(chunks, strings.Join(currentChunk, " "))
          currentChunk = nil } }\<close>
\<close>

fun splitLoop ::
  "int \<Rightarrow> string list \<Rightarrow> string list \<Rightarrow> string list \<Rightarrow> string list \<times> string list" where
  "splitLoop n [] chunks currentChunk = (chunks, currentChunk)"
| "splitLoop n (word # words) chunks currentChunk =
     (let currentChunk = currentChunk @ [word]
      in if int (length currentChunk) \<ge> n
         then splitLoop n words (chunks @ [Join currentChunk '' '']) []
         else splitLoop n words chunks currentChunk)"

definition splitIntoChunks :: "RAG \<Rightarrow> string \<Rightarrow> string list" where
  "splitIntoChunks r text =
     (let words = Fields text;
          (chunks, currentChunk) = splitLoop (chunkSize r) words [] []
      in if length currentChunk > 0 then chunks @ [Join currentChunk '' ''] else chunks)"

subsection \<open>getEmbedding\<close>

text \<open>
  The methods that call a service take the program state, the \<open>RAG\<close> behind the receiver
  pointer and the outside world, and return it with their result. In Claude mode
  \<open>getEmbedding\<close> returns its error before any call. \<open>resp.Data[0]\<close> panics on a response
  without data.
\<close>

definition claudeEmbeddingError :: string where
  "claudeEmbeddingError =
     ''Claude mode requires an OpenAI API key for embeddings - this is not implemented yet''"

definition getEmbedding ::
  "'w clients \<Rightarrow> string \<Rightarrow> RAG \<times> 'w \<Rightarrow> (error + float32 list) \<times> RAG \<times> 'w" where
  "getEmbedding C text = (\<lambda>(r, w).
     if useOpenAI r then
       (case CreateEmbeddings C text w of
          (Inl err, w') \<Rightarrow> (Inl (Error err), r, w')
        | (Inr [], w') \<Rightarrow> (Inl indexOutOfRange, r, w')
        | (Inr (d # ds), w') \<Rightarrow> (Inr d, r, w'))
     else (Inl (Error claudeEmbeddingError), r, w))"

subsection \<open>AddDocument\<close>

definition chunkDocument :: "Document \<Rightarrow> string \<Rightarrow> Document" where
  \<comment> \<open>\<^verbatim>\<open>Document{Content: chunk, Source: doc.Source, Type: doc.Type}\<close>\<close>
  "chunkDocument doc chunk = \<lparr>Content = chunk, Source = Source doc, Type = Type doc\<rparr>"

text \<open>
  The loop of \<open>AddDocument\<close> over the chunks: an embedding error returns at once, wrapped,
  with the receiver as the earlier iterations left it; otherwise the chunk is appended to
  \<open>r.documents\<close> and its embedding stored under the chunk's text.
\<close>

fun addLoop ::
  "'w clients \<Rightarrow> Document \<Rightarrow> string list \<Rightarrow> RAG \<times> 'w \<Rightarrow> error option \<times> RAG \<times> 'w" where
  "addLoop C doc [] s = (None, s)"
| "addLoop C doc (chunk # chunks) s =
     (case getEmbedding C chunk s of
        (Inl (Error err), s') \<Rightarrow> (Some (Error (''failed to get embedding: '' @ err)), s')
      | (Inl (Panic p), s') \<Rightarrow> (Some (Panic p), s')
      | (Inr embedding, (r, w)) \<Rightarrow>
          addLoop C doc chunks
            (r\<lparr>documents := documents r @ [chunkDocument doc chunk],
               embeddings := (embeddings r)(chunk \<mapsto> embedding)\<rparr>, w))"

definition AddDocument ::
  "'w clients \<Rightarrow> Document \<Rightarrow> RAG \<times> 'w \<Rightarrow> error option \<times> RAG \<times> 'w" where
  "AddDocument C doc = (\<lambda>(r, w). addLoop C doc (splitIntoChunks r (Content doc)) (r, w))"

subsection \<open>findRelevantDocuments\<close>

record docScore =
  doc :: Document
  score :: float32

text \<open>
  The first loop scores every document. \<open>r.embeddings[doc.Content]\<close> is \<open>nil\<close>, of length
  0, for a key that the map does not hold. The source then has the two comment lines
  \<^verbatim>\<open>// Sort by similarity score (descending)\<close> and
  \<^verbatim>\<open>// Implementation of sorting omitted for brevity\<close> and no statement between them and
  the second loop, which copies \<open>scores[i].doc\<close> for \<open>i < len(scores) && i < 3\<close>.
\<close>

fun scoreLoop :: "RAG \<Rightarrow> float32 list \<Rightarrow> Document list \<Rightarrow> docScore list \<Rightarrow> error + docScore list"
  where
  "scoreLoop r queryEmbedding [] scores = Inr scores"
| "scoreLoop r queryEmbedding (d # ds) scores =
     (let embedding = (case embeddings r (Content d) of None \<Rightarrow> [] | Some e \<Rightarrow> e)
      in case cosineSimilarity queryEmbedding embedding of
           Inl e \<Rightarrow> Inl e
         | Inr similarity \<Rightarrow>
             scoreLoop r queryEmbedding ds (scores @ [\<lparr>doc = d, score = similarity\<rparr>]))"

function topLoop :: "nat \<Rightarrow> docScore list \<Rightarrow> Document list \<Rightarrow> Document list" where
  "topLoop i scores result =
     (if i < length scores \<and> i < 3 then topLoop (i + 1) scores (result @ [doc (scores ! i)])
      else result)"
  by pat_completeness auto
termination
  by (relation "measure (\<lambda>(i, scores, result). length scores - i)") auto

definition findRelevantDocuments :: "RAG \<Rightarrow> float32 list \<Rightarrow> error + Document list" where
  "findRelevantDocuments r queryEmbedding =
     (case scoreLoop r queryEmbedding (documents r) [] of
        Inl e \<Rightarrow> Inl e
      | Inr scores \<Rightarrow> Inr (topLoop 0 scores []))"

subsection \<open>buildContext, generateAnswer, Query\<close>

definition newline :: char where
  "newline = CHR 0x0A"

definition buildContext :: "Document list \<Rightarrow> string" where
  "buildContext docs =
     foldl (\<lambda>context d.
              context @ ''Source: '' @ Source d @ [newline] @ Content d @ [newline, newline])
       (''Based on the following information:'' @ [newline, newline]) docs"

definition systemPrompt :: string where
  "systemPrompt =
     ''You are an infrastructure optimization expert. Use the provided context to answer questions about infrastructure, ''
     @ ''services, and container deployments. Provide clear, actionable recommendations without implementing them directly.''"

definition generateAnswer ::
  "'w clients \<Rightarrow> string \<Rightarrow> string \<Rightarrow> RAG \<times> 'w \<Rightarrow> (error + string) \<times> RAG \<times> 'w" where
  "generateAnswer C ctx question = (\<lambda>(r, w).
     if useOpenAI r then
       (case CreateChatCompletion C systemPrompt
               (ctx @ [newline, newline] @ ''Question: '' @ question) (maxTokens r) w of
          (Inl err, w') \<Rightarrow> (Inl (Error err), r, w')
        | (Inr [], w') \<Rightarrow> (Inl indexOutOfRange, r, w')
        | (Inr (c # cs), w') \<Rightarrow> (Inr c, r, w'))
     else
       (case CreateMessages C
               (systemPrompt @ [newline, newline] @ ctx @ [newline, newline] @ ''Question: ''
                  @ question) (maxTokens r) w of
          (Inl err, w') \<Rightarrow> (Inl (Error err), r, w')
        | (Inr answer, w') \<Rightarrow> (Inr answer, r, w')))"

definition Query ::
  "'w clients \<Rightarrow> string \<Rightarrow> RAG \<times> 'w \<Rightarrow> (error + string) \<times> RAG \<times> 'w" where
  "Query C question s =
     (case getEmbedding C question s of
        (Inl (Error err), s') \<Rightarrow>
          (Inl (Error (''failed to get question embedding: '' @ err)), s')
      | (Inl (Panic p), s') \<Rightarrow> (Inl (Panic p), s')
      | (Inr questionEmbedding, (r, w)) \<Rightarrow>
          (case findRelevantDocuments r questionEmbedding of
             Inl e \<Rightarrow> (Inl e, (r, w))
           | Inr relevantDocs \<Rightarrow>
               generateAnswer C (buildContext relevantDocs) question (r, w)))"

section \<open>Notions used in the statements and proofs\<close>

definition zeroOrNaN :: "float32 \<Rightarrow> bool" where
  "zeroOrNaN x = (x = NaN \<or> isZero x)"

definition inUnitInterval :: "float32 \<Rightarrow> bool" where
  \<comment> \<open>\<open>-1 \<le> x \<le> 1\<close>: a finite value of magnitude at most 1\<close>
  "inUnitInterval x = (case x of Finite s p \<Rightarrow> p \<le> 1 | _ \<Rightarrow> False)"

definition wrapEmbeddingError :: "error \<Rightarrow> error" where
  \<comment> \<open>what \<open>AddDocument\<close> returns for a failure \<open>e\<close> of \<open>getEmbedding\<close>:
      \<^verbatim>\<open>fmt.Errorf("failed to get embedding: %v", err)\<close>, or the panic going on\<close>
  "wrapEmbeddingError e =
     (case e of Error err \<Rightarrow> Error (''failed to get embedding: '' @ err) | Panic p \<Rightarrow> Panic p)"

definition wordlike :: "string \<Rightarrow> bool" where
  \<comment> \<open>a non-empty string in which no white-space character starts\<close>
  "wordlike x = (x \<noteq> [] \<and> (\<forall>i<length x. spaceWidth (drop i x) = 0))"

text \<open>
  The words of a text cut into consecutive groups of \<open>n\<close>, the last one shorter when \<open>n\<close>
  does not divide their number: what the chunker is meant to produce for \<open>n > 0\<close>.
\<close>

function groupsOf :: "nat \<Rightarrow> 'a list \<Rightarrow> 'a list list" where
  "groupsOf n ws = (if n = 0 \<or> ws = [] then [] else take n ws # groupsOf n (drop n ws))"
  by pat_completeness auto
termination
  by (relation "measure (\<lambda>(n, ws). length ws)") auto

definition joinSpace :: "string list \<Rightarrow> string" where
  "joinSpace g = Join g '' ''"

definition finish :: "string list \<times> string list \<Rightarrow> string list" where
  \<comment> \<open>the flush of the last, partial chunk after the loop of \<open>splitIntoChunks\<close>\<close>
  "finish p = (case p of (chunks, currentChunk) \<Rightarrow>
     if length currentChunk > 0 then chunks @ [Join currentChunk '' ''] else chunks)"

section \<open>Example inputs\<close>

text \<open>
  An embedding service whose call number \<open>k\<close> (from 0) fails and whose other calls return
  the one-component vector \<open>[1]\<close>; the state of the world is the number of embedding calls
  made so far. The two generation services always answer.
\<close>

definition failingClients :: "nat \<Rightarrow> nat clients" where
  "failingClients k =
     \<lparr>CreateEmbeddings =
        (\<lambda>input n. (if n = k then Inl ''quota exceeded'' else Inr [[Finite False 1]], n + 1)),
      CreateChatCompletion = (\<lambda>system user maxTok n. (Inr [''answer''], n)),
      CreateMessages = (\<lambda>prompt maxTok n. (Inr ''answer'', n))\<rparr>"

definition fiveWords :: Document where
  "fiveWords = \<lparr>Content = ''a b c d e'', Source = ''notes'', Type = ''article''\<rparr>"

definition twoWords :: Document where
  "twoWords = \<lparr>Content = ''a b'', Source = ''notes'', Type = ''article''\<rparr>"

definition oneWordRAG :: RAG where
  \<comment> \<open>one word per chunk\<close>
  "oneWordRAG = SetChunkSize 1 (NewRAG ''key'')"

definition threeWordRAG :: RAG where
  "threeWordRAG = SetChunkSize 3 (NewRAG ''key'')"

definition kubernetesText :: string where
  "kubernetesText = ''Kubernetes is great. Kubernetes scales well.''"

definition indexAB :: RAG where
  \<comment> \<open>\<open>oneWordRAG\<close> after the chunks \<open>a\<close> and \<open>b\<close> of a document of source \<open>notes\<close>\<close>
  "indexAB =
     oneWordRAG
       \<lparr>documents := [chunkDocument twoWords ''a'', chunkDocument twoWords ''b''],
        embeddings := [''a'' \<mapsto> [Finite False 1], ''b'' \<mapsto> [Finite False 1]]\<rparr>"

definition indexABAB :: RAG where
  "indexABAB =
     oneWordRAG
       \<lparr>documents := [chunkDocument twoWords ''a'', chunkDocument twoWords ''b'',
                      chunkDocument twoWords ''a'', chunkDocument twoWords ''b''],
        embeddings := [''a'' \<mapsto> [Finite False 1], ''b'' \<mapsto> [Finite False 1]]\<rparr>"

definition rankedDoc :: "string \<Rightarrow> Document" where
  "rankedDoc c = \<lparr>Content = c, Source = ''kb'', Type = ''article''\<rparr>"

text \<open>
  An index of four chunks \<open>w\<close>, \<open>x\<close>, \<open>y\<close>, \<open>z\<close> and the query \<open>[1, 0, 0, 0]\<close>. The
  similarities to the query, as the code computes them, are \<open>0\<close>, \<open>1/4\<close>, \<open>1/2\<close> and \<open>1\<close> in
  ingestion order (the cosines proper are \<open>0\<close>, \<open>1/2\<close>, \<open>1/\<surd>2\<close> and \<open>1\<close>: ascending too).
\<close>

definition unitQuery :: "float32 list" where
  "unitQuery = [float32_of 1, float32_of 0, float32_of 0, float32_of 0]"

definition ascendingIndex :: RAG where
  "ascendingIndex =
     \<lparr>documents = [rankedDoc ''w'', rankedDoc ''x'', rankedDoc ''y'', rankedDoc ''z''],
      embeddings =
        [''w'' \<mapsto> [float32_of 0, float32_of 1, float32_of 0, float32_of 0],
         ''x'' \<mapsto> [float32_of 1, float32_of 1, float32_of 1, float32_of 1],
         ''y'' \<mapsto> [float32_of 1, float32_of 1, float32_of 0, float32_of 0],
         ''z'' \<mapsto> [float32_of 1, float32_of 0, float32_of 0, float32_of 0]],
      chunkSize = 1000, maxTokens = 4000, useOpenAI = True\<rparr>"

section \<open>Evaluating the float32 model\<close>

lemma floor_rat_numeral [simp]:
  "\<lfloor>(numeral a :: rat) / numeral b\<rfloor> = numeral a div numeral b"
  using floor_divide_of_int_eq [of "numeral a" "numeral b", where ?'a = rat] by simp

lemma floor_rat_one_numeral [simp]:
  "\<lfloor>(1 :: rat) / numeral b\<rfloor> = 1 div numeral b"
  using floor_divide_of_int_eq [of 1 "numeral b", where ?'a = rat] by simp

lemma ceiling_rat_numeral [simp]:
  "\<lceil>(numeral a :: rat) / numeral b\<rceil> = - ((- numeral a) div numeral b)"
  using ceiling_divide_eq_div [of "numeral a" "numeral b", where ?'a = rat] by simp

lemmas round32_eval =
  round32_def ilog2_def roundEven_def pow2_def Let_def compute_floorlog float32_of_def

lemma round32_exact_examples:
  "round32 False 1 = Finite False 1"
  "round32 False (1 / 4) = Finite False (1 / 4)"
  "round32 True 5 = Finite True 5"
  "round32 False (2 ^ 128 - 2 ^ 104) = Finite False (2 ^ 128 - 2 ^ 104)"
  "round32 False (1 / 2 ^ 149) = Finite False (1 / 2 ^ 149)"
  by (simp_all add: round32_eval)

lemma round32_inexact_examples:
  "round32 False (1 / 3) = Finite False (11184811 / 2 ^ 25)"
  "round32 False (1 / 10) = Finite False (13421773 / 2 ^ 27)"
  "round32 True 16777217 = Finite True 16777216"
  "round32 True 16777219 = Finite True 16777220"
  "round32 False (2 ^ 128 - 2 ^ 103) = Infinity False"
  "round32 False (1 / 2 ^ 150) = Finite False 0"
  "round32 False (3 / 2 ^ 150) = Finite False (1 / 2 ^ 148)"
  by (simp_all add: round32_eval)

lemma round32_zero [simp]: "round32 s 0 = Finite s 0"
  by (simp add: round32_def)

lemma fmul_commute: "fmul x y = fmul y x"
  by (cases x; cases y) (auto simp: mult.commute intro!: arg_cong2 [where f = round32])

lemma fmul_NaN_right [simp]: "fmul x NaN = NaN"
  by (cases x) simp_all

lemma fadd_NaN_right [simp]: "fadd x NaN = NaN"
  by (cases x) simp_all

lemma fdiv_NaN_right [simp]: "fdiv x NaN = NaN"
  by (cases x) simp_all

lemmas float_eval = round32_eval zero32_def sqrt32_def signed_def cosineSimilarity_def

section \<open>cosineSimilarity\<close>

lemma zero32_isZero [simp]: "isZero zero32" "zeroOrNaN zero32"
  by (simp_all add: isZero_def zero32_def zeroOrNaN_def)

lemma fmul_zero_left: "isZero x \<Longrightarrow> zeroOrNaN (fmul x y)"
  by (cases x; cases y) (auto simp: isZero_def zeroOrNaN_def)

lemma fmul_zero_right: "isZero y \<Longrightarrow> zeroOrNaN (fmul x y)"
  using fmul_zero_left [of y x] by (simp add: fmul_commute)

lemma fmul_zero_self: "isZero x \<Longrightarrow> isZero (fmul x x)"
  by (cases x) (auto simp: isZero_def)

lemma fadd_zero_zero: "isZero x \<Longrightarrow> isZero y \<Longrightarrow> isZero (fadd x y)"
  by (cases x; cases y) (auto simp: isZero_def signed_def)

lemma fadd_zeroOrNaN: "zeroOrNaN x \<Longrightarrow> zeroOrNaN y \<Longrightarrow> zeroOrNaN (fadd x y)"
  by (cases x; cases y) (auto simp: isZero_def signed_def zeroOrNaN_def)

lemma fdiv_zeroOrNaN: "zeroOrNaN x \<Longrightarrow> zeroOrNaN y \<Longrightarrow> fdiv x y = NaN"
  by (cases x; cases y) (auto simp: isZero_def zeroOrNaN_def)

lemma fdiv_by_zeroOrNaN: "zeroOrNaN y \<Longrightarrow> fdiv x y = NaN \<or> (\<exists>s. fdiv x y = Infinity s)"
  by (cases x; cases y) (auto simp: isZero_def zeroOrNaN_def)

text \<open>The loop panics exactly when \<open>b\<close> is shorter than \<open>a\<close>.\<close>

lemma cosineLoop_returns:
  "length a \<le> length b \<Longrightarrow> \<exists>acc'. cosineLoop a b acc = Inr acc'"
  by (induction a b acc rule: cosineLoop.induct) auto

lemma cosineLoop_panics:
  "length b < length a \<Longrightarrow> cosineLoop a b acc = Inl indexOutOfRange"
  by (induction a b acc rule: cosineLoop.induct) simp_all

lemma cosineLoop_zero_a:
  "cosineLoop a b (d, na, nb) = Inr (d', na', nb') \<Longrightarrow> \<forall>x\<in>set a. isZero x
    \<Longrightarrow> zeroOrNaN d \<Longrightarrow> isZero na \<Longrightarrow> zeroOrNaN d' \<and> isZero na'"
proof (induction a b "(d, na, nb)" arbitrary: d na nb rule: cosineLoop.induct)
  case (1 b) then show ?case by simp
next
  case (2 x a) then show ?case by simp
next
  case (3 x a y b d na nb)
  show ?case
    using 3 by (simp add: fadd_zeroOrNaN fmul_zero_left fadd_zero_zero fmul_zero_self)
qed

lemma cosineLoop_zero_b:
  "cosineLoop a b (d, na, nb) = Inr (d', na', nb') \<Longrightarrow> \<forall>y\<in>set b. isZero y
    \<Longrightarrow> zeroOrNaN d \<Longrightarrow> isZero nb \<Longrightarrow> zeroOrNaN d' \<and> isZero nb'"
proof (induction a b "(d, na, nb)" arbitrary: d na nb rule: cosineLoop.induct)
  case (1 b) then show ?case by simp
next
  case (2 x a) then show ?case by simp
next
  case (3 x a y b d na nb)
  show ?case
    using 3 by (simp add: fadd_zeroOrNaN fmul_zero_right fadd_zero_zero fmul_zero_self)
qed

lemma cosineLoop_swap:
  "length a = length b \<Longrightarrow>
     cosineLoop b a (d, nb, na) =
       map_sum id (\<lambda>(d', na', nb'). (d', nb', na')) (cosineLoop a b (d, na, nb))"
proof (induction a b arbitrary: d na nb rule: list_induct2)
  case Nil then show ?case by simp
next
  case (Cons x xs y ys)
  then show ?case by (simp add: fmul_commute)
qed

text \<open>
  Claim C3, as the code has it. The claim says that \<open>cosineSimilarity\<close> returns exactly 0
  when either vector has zero norm, rather than dividing by zero. The code has no such
  guard: it divides by \<open>sqrt(normA) * sqrt(normB)\<close> whatever it is. Whenever the loop ends
  (that is, \<open>b\<close> is not shorter than \<open>a\<close>) with a zero \<open>normA\<close> or a zero \<open>normB\<close>, the
  divisor is zero or NaN and the result is NaN or an infinity; when every component of
  \<open>a\<close> is zero, or every component of \<open>b\<close>, the result is NaN. It is never 0.
\<close>

theorem cosineSimilarity_zero_norm:
  assumes "cosineLoop a b (zero32, zero32, zero32) = Inr (dotProduct, normA, normB)"
  shows "(isZero normA \<or> isZero normB \<longrightarrow>
            cosineSimilarity a b = Inr NaN \<or> (\<exists>s. cosineSimilarity a b = Inr (Infinity s)))
       \<and> ((\<forall>x\<in>set a. isZero x) \<or> (\<forall>y\<in>set b. isZero y) \<longrightarrow> cosineSimilarity a b = Inr NaN)"
proof (intro conjI impI)
  assume z: "isZero normA \<or> isZero normB"
  then have "zeroOrNaN (fmul normA normB)"
    using fmul_zero_left fmul_zero_right by blast
  then show "cosineSimilarity a b = Inr NaN \<or> (\<exists>s. cosineSimilarity a b = Inr (Infinity s))"
    using fdiv_by_zeroOrNaN [of "fmul normA normB" dotProduct] assms
    by (simp add: cosineSimilarity_def sqrt32_def)
next
  assume "(\<forall>x\<in>set a. isZero x) \<or> (\<forall>y\<in>set b. isZero y)"
  then have "zeroOrNaN dotProduct \<and> (isZero normA \<or> isZero normB)"
    using cosineLoop_zero_a [OF assms] cosineLoop_zero_b [OF assms] by auto
  then have "zeroOrNaN dotProduct" "zeroOrNaN (fmul normA normB)"
    using fmul_zero_left fmul_zero_right by blast+
  then show "cosineSimilarity a b = Inr NaN"
    using assms by (simp add: cosineSimilarity_def sqrt32_def fdiv_zeroOrNaN)
qed

theorem cosineSimilarity_zero_norm_witness:
  "cosineLoop [zero32, zero32] [float32_of 1, float32_of 2] (zero32, zero32, zero32)
     = Inr (zero32, zero32, float32_of 5)
   \<and> isZero zero32
   \<and> cosineSimilarity [zero32, zero32] [float32_of 1, float32_of 2] = Inr NaN"
proof -
  have h: "cosineLoop [zero32, zero32] [float32_of 1, float32_of 2] (zero32, zero32, zero32)
     = Inr (zero32, zero32, float32_of 5)"
    by (simp add: float_eval)
  show ?thesis
    using h cosineSimilarity_zero_norm [OF h] by simp
qed

text \<open>
  Counterexample to C3 as stated: with \<open>a\<close> all-zero the result is NaN, which is not 0.
\<close>

theorem cosineSimilarity_zero_vector_counterexample:
  "cosineSimilarity [zero32, zero32] [float32_of 1, float32_of 2] = Inr NaN \<and> \<not> isZero NaN"
  by (simp add: float_eval isZero_def)

text \<open>
  Symmetry. On vectors of equal length the code returns the same value in both orders,
  NaN results included. On vectors of different lengths the call with the longer vector
  first panics, and the call with the shorter vector first does not look at the tail of
  the longer one.
\<close>

lemma cosineSimilarity_symmetric_equal_length:
  assumes "length a = length b"
  shows "cosineSimilarity a b = cosineSimilarity b a"
  using cosineLoop_swap [OF assms, of zero32 zero32 zero32]
  by (cases "cosineLoop a b (zero32, zero32, zero32)")
     (auto simp: cosineSimilarity_def sqrt32_def fmul_commute)

lemma cosineSimilarity_panics:
  "length b < length a \<Longrightarrow> cosineSimilarity a b = Inl indexOutOfRange"
  by (simp add: cosineSimilarity_def cosineLoop_panics)

lemma cosineLoop_ignores_tail:
  "length a \<le> length b \<Longrightarrow> cosineLoop a (b @ t) acc = cosineLoop a b acc"
  by (induction a b acc rule: cosineLoop.induct) simp_all

lemma cosineSimilarity_ignores_tail:
  assumes "length a \<le> length b"
  shows "cosineSimilarity a b = cosineSimilarity a (take (length a) b)"
proof -
  have "cosineLoop a (take (length a) b @ drop (length a) b) (zero32, zero32, zero32)
          = cosineLoop a (take (length a) b) (zero32, zero32, zero32)"
    using assms by (intro cosineLoop_ignores_tail) simp
  then show ?thesis by (simp add: cosineSimilarity_def)
qed

lemma cosineSimilarity_different_lengths_example:
  "cosineSimilarity [float32_of 1] [float32_of 1, float32_of 2] = Inr (Finite False 1)
   \<and> cosineSimilarity [float32_of 1, float32_of 2] [float32_of 1] = Inl indexOutOfRange"
  by (simp add: float_eval)

text \<open>
  Claim C4: \<open>cosineSimilarity\<close> is symmetric, and on vectors of non-zero norm its result
  is in \<open>[-1, 1]\<close>. On the vectors of one length that the module compares the code is
  symmetric (\<open>cosineSimilarity_symmetric_equal_length\<close>), but its result is not bounded:
  \<open>sqrt\<close> returns its argument instead of the square root, so the code divides the dot
  product by \<open>normA * normB\<close>, the product of the squared norms. For \<open>a = b = [0.5]\<close> the
  loop ends with \<open>dotProduct = normA = normB = 0.25\<close> and the result is
  \<open>0.25 / (0.25 * 0.25) = 4\<close>, outside \<open>[-1, 1]\<close>; for \<open>a = b = [2]\<close> it is \<open>4 / (4 * 4) = 0.25\<close>.
  The cosine of a vector with itself is 1.
\<close>

theorem cosineSimilarity_exceeds_bound:
  "cosineLoop [float32_of (1 / 2)] [float32_of (1 / 2)] (zero32, zero32, zero32)
     = Inr (Finite False (1 / 4), Finite False (1 / 4), Finite False (1 / 4))
   \<and> sqrt32 (Finite False (1 / 4)) = Finite False (1 / 4)
   \<and> cosineSimilarity [float32_of (1 / 2)] [float32_of (1 / 2)] = Inr (Finite False 4)
   \<and> \<not> inUnitInterval (Finite False 4)
   \<and> cosineSimilarity [float32_of 2] [float32_of 2] = Inr (Finite False (1 / 4))"
  by (simp add: float_eval inUnitInterval_def)

section \<open>The chunker\<close>

declare groupsOf.simps [simp del]

subsection \<open>Fields and Join\<close>

lemma spaceWidth_space [simp]: "spaceWidth (CHR '' '' # Y) = 1"
  by (simp add: spaceWidth_def)

lemma spaceWidth_Nil [simp]: "spaceWidth [] = 0"
  by (simp add: spaceWidth_def)

lemma spaceWidth_three: "spaceWidth (c1 # c2 # c3 # t) = spaceWidth [c1, c2, c3]"
  by (simp add: spaceWidth_def)

lemma spaceWidth_append_space:
  assumes "t \<noteq> []"
  shows "spaceWidth (t @ CHR '' '' # Y) = spaceWidth t"
proof -
  consider c1 where "t = [c1]" | c1 c2 where "t = [c1, c2]"
    | c1 c2 c3 t3 where "t = c1 # c2 # c3 # t3"
    using assms by (metis list.exhaust)
  then show ?thesis
  proof cases
    case 1 then show ?thesis by (auto simp: spaceWidth_def split: list.splits)
  next
    case 2 then show ?thesis by (auto simp: spaceWidth_def split: list.splits)
  next
    case 3 then show ?thesis
      using spaceWidth_three [of c1 c2 c3 "t3 @ CHR '' '' # Y"] spaceWidth_three [of c1 c2 c3 t3]
      by simp
  qed
qed

lemma spaceWidth_prefix:
  assumes "spaceWidth (t @ X) = 0"
  shows "spaceWidth t = 0"
proof -
  consider "t = []" | c1 where "t = [c1]" | c1 c2 where "t = [c1, c2]"
    | c1 c2 c3 t3 where "t = c1 # c2 # c3 # t3"
    by (metis list.exhaust)
  then show ?thesis
  proof cases
    case 1 then show ?thesis by simp
  next
    case 2 with assms show ?thesis
      by (auto simp: spaceWidth_def split: if_splits list.splits)
  next
    case 3 with assms show ?thesis
      by (auto simp: spaceWidth_def split: if_splits list.splits)
  next
    case 4 then show ?thesis
      using spaceWidth_three [of c1 c2 c3 "t3 @ X"] spaceWidth_three [of c1 c2 c3 t3] assms
      by simp
  qed
qed

lemma fieldsLoop_word_space:
  "\<forall>i<length x. spaceWidth (drop i x) = 0 \<Longrightarrow>
     fieldsLoop acc (x @ CHR '' '' # Y) = fieldsLoop (acc @ x) (CHR '' '' # Y)"
proof (induction x arbitrary: acc)
  case Nil then show ?case by simp
next
  case (Cons c x)
  have "spaceWidth (c # x) = 0" using Cons.prems by force
  then have 0: "spaceWidth (c # x @ CHR '' '' # Y) = 0"
    using spaceWidth_append_space [of "c # x" Y] by simp
  have "\<forall>i<length x. spaceWidth (drop i x) = 0"
    using Cons.prems by force
  then show ?case using Cons.IH [of "acc @ [c]"] 0 by simp
qed

lemma fieldsLoop_word_end:
  "\<forall>i<length x. spaceWidth (drop i x) = 0 \<Longrightarrow>
     fieldsLoop acc x = (if acc @ x = [] then [] else [acc @ x])"
proof (induction x arbitrary: acc)
  case Nil then show ?case by simp
next
  case (Cons c x)
  have 0: "spaceWidth (c # x) = 0" using Cons.prems by force
  have "\<forall>i<length x. spaceWidth (drop i x) = 0"
    using Cons.prems by force
  then show ?case using Cons.IH [of "acc @ [c]"] 0 by simp
qed

lemma Fields_Join:
  "\<forall>x\<in>set g. wordlike x \<Longrightarrow> Fields (Join g '' '') = g"
proof (induction g "'' ''" rule: Join.induct)
  case 1 then show ?case by (simp add: Fields_def)
next
  case (2 x)
  then show ?case by (simp add: Fields_def wordlike_def fieldsLoop_word_end)
next
  case (3 x y ys)
  then have "Fields (Join (y # ys) '' '') = y # ys" by simp
  moreover have "wordlike x" using 3 by simp
  ultimately show ?case
    by (simp add: Fields_def wordlike_def fieldsLoop_word_space)
qed

lemma fieldsLoop_wordlike:
  "\<forall>i<length w. spaceWidth (drop i w @ s) = 0 \<Longrightarrow> \<forall>x\<in>set (fieldsLoop w s). wordlike x"
proof (induction w s rule: fieldsLoop.induct)
  case (1 w)
  then show ?case by (auto simp: wordlike_def)
next
  case (2 w c cs)
  have w: "w \<noteq> [] \<Longrightarrow> wordlike w"
    using "2.prems" spaceWidth_prefix by (auto simp: wordlike_def)
  show ?case
  proof (cases "0 < spaceWidth (c # cs)")
    case True
    then show ?thesis using 2 w by auto
  next
    case False
    have "\<forall>i<length (w @ [c]). spaceWidth (drop i (w @ [c]) @ cs) = 0"
    proof (intro allI impI)
      fix i assume "i < length (w @ [c])"
      then consider "i < length w" | "i = length w" by force
      then show "spaceWidth (drop i (w @ [c]) @ cs) = 0"
      proof cases
        case 1 then show ?thesis using "2.prems" by simp
      next
        case 2 then show ?thesis using False by simp
      qed
    qed
    then show ?thesis using 2 False by simp
  qed
qed

lemma Fields_wordlike: "\<forall>x\<in>set (Fields s). wordlike x"
  using fieldsLoop_wordlike [of "[]" s] by (simp add: Fields_def)


lemma splitIntoChunks_finish:
  "splitIntoChunks r text = finish (splitLoop (chunkSize r) (Fields text) [] [])"
  by (simp add: splitIntoChunks_def finish_def Let_def)

lemma groupsOf_Nil [simp]: "groupsOf n [] = []"
  by (simp add: groupsOf.simps)

lemma groupsOf_short: "0 < n \<Longrightarrow> ws \<noteq> [] \<Longrightarrow> length ws \<le> n \<Longrightarrow> groupsOf n ws = [ws]"
  by (subst groupsOf.simps) simp

lemma groupsOf_full:
  "0 < n \<Longrightarrow> length g = n \<Longrightarrow> groupsOf n (g @ ws) = g # groupsOf n ws"
  by (subst groupsOf.simps) auto

lemma splitLoop_groups:
  "0 < n \<Longrightarrow> length cur < n \<Longrightarrow>
     finish (splitLoop (int n) ws chunks cur) = chunks @ map joinSpace (groupsOf n (cur @ ws))"
proof (induction ws arbitrary: chunks cur)
  case Nil
  then show ?case
    by (cases "cur = []") (simp_all add: finish_def groupsOf_short joinSpace_def)
next
  case (Cons w ws)
  show ?case
  proof (cases "length (cur @ [w]) \<ge> n")
    case True
    then have len: "length (cur @ [w]) = n" using Cons.prems by simp
    have "finish (splitLoop (int n) (w # ws) chunks cur)
            = finish (splitLoop (int n) ws (chunks @ [Join (cur @ [w]) '' '']) [])"
      using True by (simp add: Let_def)
    also have "\<dots> = (chunks @ [Join (cur @ [w]) '' '']) @ map joinSpace (groupsOf n ([] @ ws))"
      using Cons.IH [of "[]"] Cons.prems by simp
    also have "\<dots> = chunks @ map joinSpace (groupsOf n ((cur @ [w]) @ ws))"
      using groupsOf_full [OF Cons.prems(1) len, of ws] by (simp add: joinSpace_def)
    finally show ?thesis by simp
  next
    case False
    then have "finish (splitLoop (int n) (w # ws) chunks cur)
            = finish (splitLoop (int n) ws chunks (cur @ [w]))"
      by (simp add: Let_def)
    also have "\<dots> = chunks @ map joinSpace (groupsOf n ((cur @ [w]) @ ws))"
      using Cons.IH [of "cur @ [w]"] Cons.prems False by simp
    finally show ?thesis by simp
  qed
qed

lemma splitIntoChunks_groups:
  assumes "0 < chunkSize r"
  shows "splitIntoChunks r text = map joinSpace (groupsOf (nat (chunkSize r)) (Fields text))"
  using splitLoop_groups [of "nat (chunkSize r)" "[]" "Fields text" "[]"] assms
  by (simp add: splitIntoChunks_finish)

lemma concat_groupsOf: "0 < n \<Longrightarrow> concat (groupsOf n ws) = ws"
proof (induction n ws rule: groupsOf.induct)
  case (1 n ws)
  then show ?case by (subst groupsOf.simps) auto
qed

lemma groupsOf_bounds:
  "0 < n \<Longrightarrow> g \<in> set (groupsOf n ws) \<Longrightarrow> g \<noteq> [] \<and> length g \<le> n \<and> set g \<subseteq> set ws"
proof (induction n ws rule: groupsOf.induct)
  case (1 n ws)
  show ?case
  proof (cases "ws = []")
    case True
    with 1 show ?thesis by simp
  next
    case False
    then have "groupsOf n ws = take n ws # groupsOf n (drop n ws)"
      using "1.prems" by (subst groupsOf.simps) simp
    then consider "g = take n ws" | "g \<in> set (groupsOf n (drop n ws))"
      using "1.prems" by auto
    then show ?thesis
    proof cases
      case 1
      then show ?thesis using False \<open>0 < n\<close> by (auto dest: in_set_takeD)
    next
      case 2
      then show ?thesis using "1.IH" False "1.prems"(1) by (auto dest: in_set_dropD)
    qed
  qed
qed

lemma length_groupsOf:
  "0 < n \<Longrightarrow> int (length (groupsOf n ws)) = - ((- int (length ws)) div int n)"
proof (induction n ws rule: groupsOf.induct)
  case (1 n ws)
  show ?case
  proof (cases "ws = []")
    case True
    then show ?thesis by simp
  next
    case False
    then have eq: "groupsOf n ws = take n ws # groupsOf n (drop n ws)"
      using "1.prems" by (subst groupsOf.simps) simp
    have ih: "int (length (groupsOf n (drop n ws))) = - ((- int (length (drop n ws))) div int n)"
      using "1.IH" False "1.prems" by simp
    show ?thesis
    proof (cases "length ws \<le> n")
      case True
      then have "drop n ws = []" by simp
      moreover have "(- int (length ws)) div int n = - 1"
      proof -
        have "0 < int (length ws)" "int (length ws) \<le> int n" using False True by simp_all
        then show ?thesis
          using zdiv_zminus1_eq_if [of "int n" "int (length ws)"]
          by (cases "length ws = n") simp_all
      qed
      ultimately show ?thesis using eq by simp
    next
      case False
      then have "int (length (drop n ws)) = int (length ws) - int n" by simp
      then have "- int (length (drop n ws)) = - int (length ws) + int n" by simp
      moreover have "(- int (length ws) + int n) div int n = (- int (length ws)) div int n + 1"
        using "1.prems" by (intro div_add_self2) simp
      ultimately have "(- int (length (drop n ws))) div int n = (- int (length ws)) div int n + 1"
        by simp
      then show ?thesis using eq ih by simp
    qed
  qed
qed

lemma Join_append:
  "xs \<noteq> [] \<Longrightarrow> ys \<noteq> [] \<Longrightarrow> Join (xs @ ys) sep = Join xs sep @ sep @ Join ys sep"
proof (induction xs sep rule: Join.induct)
  case (1 sep) then show ?case by simp
next
  case (2 x sep)
  then show ?case by (cases ys) simp_all
next
  case (3 x y ys' sep)
  then show ?case by simp
qed

lemma Join_concat:
  "\<forall>g\<in>set gs. g \<noteq> [] \<Longrightarrow> Join (map (\<lambda>g. Join g sep) gs) sep = Join (concat gs) sep"
proof (induction gs)
  case Nil then show ?case by simp
next
  case (Cons g gs)
  show ?case
  proof (cases "gs = []")
    case True then show ?thesis by simp
  next
    case False
    then obtain h hs where gs: "gs = h # hs" by (cases gs) auto
    then have "concat gs \<noteq> []" using Cons.prems by auto
    then have "Join (concat (g # gs)) sep = Join g sep @ sep @ Join (concat gs) sep"
      using Join_append [of g "concat gs" sep] Cons.prems by simp
    moreover have "Join (map (\<lambda>g. Join g sep) (g # gs)) sep
        = Join g sep @ sep @ Join (map (\<lambda>g. Join g sep) gs) sep"
      using gs by simp
    ultimately show ?thesis using Cons by simp
  qed
qed

subsection \<open>splitIntoChunks with a positive chunk size\<close>

text \<open>
  Claim C5. For every text \<open>T\<close> and every chunk size \<open>N > 0\<close>, the chunks that
  \<open>splitIntoChunks\<close> returns are such that: their words, in order, are the words of \<open>T\<close>, so
  that joined by single spaces they give the white-space-normalised form of \<open>T\<close>; their
  number is \<open>\<lceil>wordCount(T) / N\<rceil>\<close>; no chunk has more than \<open>N\<close> words; every chunk is made of
  whole words of \<open>T\<close> (it has at least one word and is the space-join of its own words); and
  the empty text gives no chunk.
\<close>

theorem splitIntoChunks_spec:
  assumes "0 < chunkSize r"
  shows "concat (map Fields (splitIntoChunks r text)) = Fields text
       \<and> Join (concat (map Fields (splitIntoChunks r text))) '' '' = Join (Fields text) '' ''
       \<and> int (length (splitIntoChunks r text))
            = \<lceil>rat_of_nat (length (Fields text)) / rat_of_int (chunkSize r)\<rceil>
       \<and> (\<forall>c\<in>set (splitIntoChunks r text).
             int (length (Fields c)) \<le> chunkSize r \<and> Fields c \<noteq> [] \<and> Join (Fields c) '' '' = c)
       \<and> splitIntoChunks r [] = []"
proof -
  define n where "n = nat (chunkSize r)"
  define gs where "gs = groupsOf n (Fields text)"
  have n: "0 < n" "int n = chunkSize r" using assms by (simp_all add: n_def)
  have cs: "splitIntoChunks r text = map joinSpace gs"
    using splitIntoChunks_groups [OF assms] by (simp add: gs_def n_def)
  have g: "g \<noteq> [] \<and> length g \<le> n \<and> (\<forall>x\<in>set g. wordlike x)" if "g \<in> set gs" for g
    using groupsOf_bounds [OF n(1), of g "Fields text"] that Fields_wordlike [of "text"]
    by (auto simp: gs_def)
  have fj: "Fields (joinSpace g) = g" if "g \<in> set gs" for g
    using g [OF that] Fields_Join by (simp add: joinSpace_def)
  then have "map Fields (map joinSpace gs) = gs"
    by (simp add: map_idI)
  then have 1: "concat (map Fields (splitIntoChunks r text)) = Fields text"
    using cs concat_groupsOf [OF n(1), of "Fields text"] by (simp add: gs_def)
  have 3: "int (length (splitIntoChunks r text))
            = \<lceil>rat_of_nat (length (Fields text)) / rat_of_int (chunkSize r)\<rceil>"
    using length_groupsOf [OF n(1), of "Fields text"] n(2)
      ceiling_divide_eq_div [of "int (length (Fields text))" "chunkSize r", where ?'a = rat]
    by (simp add: cs gs_def)
  have 4: "int (length (Fields c)) \<le> chunkSize r \<and> Fields c \<noteq> [] \<and> Join (Fields c) '' '' = c"
    if "c \<in> set (splitIntoChunks r text)" for c
  proof -
    from that have "c \<in> joinSpace ` set gs" by (simp add: cs)
    then obtain g where "g \<in> set gs" "c = joinSpace g" by auto
    then show ?thesis using fj [of g] g [of g] n(2) by (auto simp: joinSpace_def)
  qed
  have 5: "splitIntoChunks r [] = []"
    by (simp add: splitIntoChunks_def Fields_def)
  show ?thesis using 1 3 4 5 by simp
qed

theorem splitIntoChunks_spec_witness:
  "0 < chunkSize threeWordRAG
   \<and> splitIntoChunks threeWordRAG kubernetesText
       = [''Kubernetes is great.'', ''Kubernetes scales well.'']
   \<and> concat (map Fields (splitIntoChunks threeWordRAG kubernetesText)) = Fields kubernetesText
   \<and> int (length (splitIntoChunks threeWordRAG kubernetesText))
       = \<lceil>rat_of_nat (length (Fields kubernetesText)) / rat_of_int (chunkSize threeWordRAG)\<rceil>
   \<and> int (length (Fields ''Kubernetes is great.'')) \<le> chunkSize threeWordRAG"
proof -
  have h: "0 < chunkSize threeWordRAG"
    by (simp add: threeWordRAG_def SetChunkSize_def NewRAG_def)
  have e: "splitIntoChunks threeWordRAG kubernetesText
       = [''Kubernetes is great.'', ''Kubernetes scales well.'']"
    by (simp add: threeWordRAG_def SetChunkSize_def NewRAG_def kubernetesText_def
        splitIntoChunks_def Fields_def spaceWidth_def)
  have m: "''Kubernetes is great.'' \<in> set (splitIntoChunks threeWordRAG kubernetesText)"
    unfolding e by simp
  note t = splitIntoChunks_spec [OF h, of kubernetesText]
  from t m have "int (length (Fields ''Kubernetes is great.'')) \<le> chunkSize threeWordRAG"
    by blast
  with h e t show ?thesis by blast
qed

subsection \<open>splitIntoChunks with a chunk size of zero or less\<close>

text \<open>
  Claim C6, as the code has it. The claim says that with a chunk size \<open>\<le> 0\<close> a non-empty
  text is either rejected or returned as a single chunk. \<open>splitIntoChunks\<close> has no error
  result and does not look at the sign of \<open>chunkSize\<close>: the test
  \<open>len(currentChunk) >= r.chunkSize\<close> holds after every word, so every word is a chunk of
  its own, as with chunk size 1.
\<close>

theorem splitIntoChunks_nonpositive:
  assumes "chunkSize r \<le> 0"
  shows "splitIntoChunks r text = Fields text"
proof -
  have "splitLoop (chunkSize r) ws chunks [] = (chunks @ ws, [])" for ws chunks
    using assms by (induction ws arbitrary: chunks) (simp_all add: Let_def)
  then show ?thesis by (simp add: splitIntoChunks_def)
qed

theorem splitIntoChunks_nonpositive_witness:
  "chunkSize (SetChunkSize (- 3) (NewRAG ''key'')) \<le> 0
   \<and> splitIntoChunks (SetChunkSize (- 3) (NewRAG ''key'')) ''a b c'' = Fields ''a b c''
   \<and> Fields ''a b c'' = [''a'', ''b'', ''c'']"
proof -
  have h: "chunkSize (SetChunkSize (- 3) (NewRAG ''key'')) \<le> 0"
    by (simp add: SetChunkSize_def NewRAG_def)
  have "Fields ''a b c'' = [''a'', ''b'', ''c'']"
    by (simp add: Fields_def spaceWidth_def)
  with h splitIntoChunks_nonpositive [OF h, of "''a b c''"] show ?thesis by blast
qed

text \<open>
  Counterexample to C6 as stated: with chunk size 0 the text \<open>a b\<close> is neither rejected nor
  returned as the single chunk \<open>a b\<close>; it comes back as the two chunks \<open>a\<close> and \<open>b\<close>.
\<close>

theorem splitIntoChunks_zero_counterexample:
  "splitIntoChunks (SetChunkSize 0 (NewRAG ''key'')) ''a b'' = [''a'', ''b'']"
  by (simp add: SetChunkSize_def NewRAG_def splitIntoChunks_def Fields_def spaceWidth_def)

section \<open>AddDocument\<close>

lemma getEmbedding_rag: "fst (snd (getEmbedding C t (r, w))) = r"
  by (auto simp: getEmbedding_def split: prod.splits sum.splits list.splits)

lemma getEmbedding_rag': "getEmbedding C t (r, w) = (x, r', w') \<Longrightarrow> r' = r"
  using getEmbedding_rag [of C t r w] by simp

lemma addLoop_Cons_fail:
  "getEmbedding C c (r, w) = (Inl e, s') \<Longrightarrow>
     addLoop C d (c # cs) (r, w) = (Some (wrapEmbeddingError e), s')"
  by (cases e) (simp_all add: wrapEmbeddingError_def)

lemma addLoop_append:
  "addLoop C d (xs @ ys) s =
     (case addLoop C d xs s of
        (None, s') \<Rightarrow> addLoop C d ys s'
      | (Some e, s') \<Rightarrow> (Some e, s'))"
proof (induction xs arbitrary: s)
  case Nil then show ?case by simp
next
  case (Cons x xs)
  obtain res r w where g: "getEmbedding C x s = (res, r, w)"
    by (metis prod_cases3)
  show ?case
  proof (cases res)
    case (Inl e)
    then show ?thesis using g by (cases e) simp_all
  next
    case (Inr embedding)
    then show ?thesis using g Cons.IH by simp
  qed
qed

lemma addLoop_success:
  "addLoop C d cs (r, w) = (None, r', w') \<Longrightarrow>
     documents r' = documents r @ map (chunkDocument d) cs
     \<and> dom (embeddings r') = dom (embeddings r) \<union> set cs
     \<and> chunkSize r' = chunkSize r \<and> maxTokens r' = maxTokens r \<and> useOpenAI r' = useOpenAI r"
proof (induction cs arbitrary: r w)
  case Nil then show ?case by simp
next
  case (Cons c cs)
  obtain x ra wa where g: "getEmbedding C c (r, w) = (x, ra, wa)"
    by (metis prod_cases3)
  then have ra: "ra = r" by (rule getEmbedding_rag')
  show ?case
  proof (cases x)
    case (Inl e)
    then show ?thesis using Cons.prems g by (cases e) simp_all
  next
    case (Inr embedding)
    let ?r = "r\<lparr>documents := documents r @ [chunkDocument d c],
                 embeddings := (embeddings r)(c \<mapsto> embedding)\<rparr>"
    have "addLoop C d cs (?r, wa) = (None, r', w')"
      using Cons.prems g Inr ra by simp
    from Cons.IH [OF this] show ?thesis by auto
  qed
qed

lemma splitIntoChunks_cong:
  "chunkSize r' = chunkSize r \<Longrightarrow> splitIntoChunks r' t = splitIntoChunks r t"
  by (simp add: splitIntoChunks_def)

lemmas index_eval =
  AddDocument_def failingClients_def fiveWords_def twoWords_def oneWordRAG_def indexAB_def
  indexABAB_def SetChunkSize_def NewRAG_def splitIntoChunks_def Fields_def spaceWidth_def
  getEmbedding_def chunkDocument_def

text \<open>
  Claim C2, as the code has it. The claim says that when the embedding call fails for a
  chunk, \<open>AddDocument\<close> returns an error and leaves the index as it was before the call.
  The code returns the error, but it has appended every earlier chunk of the document
  to \<open>r.documents\<close> and stored its embedding before it reaches the failing one, and it
  undoes nothing. With \<open>pre\<close> the chunks before the failing chunk \<open>c\<close>, ingested
  without error up to the state \<open>(r1, w1)\<close>, and the embedding call for \<open>c\<close> failing there:
  \<open>AddDocument\<close> returns the wrapped error, and the index it leaves is \<open>r1\<close>, the index before
  the call extended by the chunks of \<open>pre\<close>. It is the index before the call only when the
  failing chunk is the first one.
\<close>

theorem AddDocument_keeps_earlier_chunks:
  assumes "splitIntoChunks r (Content d) = pre @ c # post"
    and "addLoop C d pre (r, w) = (None, r1, w1)"
    and "getEmbedding C c (r1, w1) = (Inl e, s2)"
  shows "AddDocument C d (r, w) = (Some (wrapEmbeddingError e), r1, snd s2)
       \<and> documents r1 = documents r @ map (chunkDocument d) pre
       \<and> dom (embeddings r1) = dom (embeddings r) \<union> set pre
       \<and> chunkSize r1 = chunkSize r \<and> maxTokens r1 = maxTokens r \<and> useOpenAI r1 = useOpenAI r
       \<and> (r1 = r \<longleftrightarrow> pre = [])"
proof -
  have s2: "s2 = (r1, snd s2)"
    using getEmbedding_rag [of C c r1 w1] assms(3) by (cases s2) simp
  have "addLoop C d (pre @ c # post) (r, w) = addLoop C d (c # post) (r1, w1)"
    using assms(2) by (simp add: addLoop_append)
  also have "\<dots> = (Some (wrapEmbeddingError e), s2)"
    using assms(3) by (rule addLoop_Cons_fail)
  finally have 1: "AddDocument C d (r, w) = (Some (wrapEmbeddingError e), r1, snd s2)"
    using assms(1) s2 by (simp add: AddDocument_def)
  note 2 = addLoop_success [OF assms(2)]
  have 3: "r1 = r \<longleftrightarrow> pre = []"
  proof
    assume "r1 = r" then show "pre = []" using 2 by simp
  next
    assume "pre = []" then show "r1 = r" using assms(2) by simp
  qed
  show ?thesis using 1 2 3 by simp
qed

theorem AddDocument_keeps_earlier_chunks_witness:
  "splitIntoChunks oneWordRAG (Content fiveWords) = [''a'', ''b''] @ ''c'' # [''d'', ''e'']
   \<and> addLoop (failingClients 2) fiveWords [''a'', ''b''] (oneWordRAG, 0) = (None, indexAB, 2)
   \<and> getEmbedding (failingClients 2) ''c'' (indexAB, 2)
       = (Inl (Error ''quota exceeded''), indexAB, 3)
   \<and> AddDocument (failingClients 2) fiveWords (oneWordRAG, 0)
       = (Some (wrapEmbeddingError (Error ''quota exceeded'')), indexAB, 3)
   \<and> documents indexAB = documents oneWordRAG @ map (chunkDocument fiveWords) [''a'', ''b'']"
proof -
  have h1: "splitIntoChunks oneWordRAG (Content fiveWords)
              = [''a'', ''b''] @ ''c'' # [''d'', ''e'']"
    by (simp add: index_eval)
  have h2: "addLoop (failingClients 2) fiveWords [''a'', ''b''] (oneWordRAG, 0)
              = (None, indexAB, 2)"
    by (simp add: index_eval)
  have h3: "getEmbedding (failingClients 2) ''c'' (indexAB, 2)
              = (Inl (Error ''quota exceeded''), indexAB, 3)"
    by (simp add: index_eval)
  show ?thesis
    using h1 h2 h3 AddDocument_keeps_earlier_chunks [OF h1 h2 h3] by simp
qed

text \<open>
  Counterexample to C2 as stated: the embedding of the third of five chunks fails,
  \<open>AddDocument\<close> returns the error, and the index, empty before the call, holds the first
  two chunks and their embeddings after it.
\<close>

theorem AddDocument_not_atomic_counterexample:
  "AddDocument (failingClients 2) fiveWords (oneWordRAG, 0)
     = (Some (Error ''failed to get embedding: quota exceeded''), indexAB, 3)
   \<and> documents oneWordRAG = [] \<and> embeddings oneWordRAG = Map.empty
   \<and> documents indexAB = [chunkDocument fiveWords ''a'', chunkDocument fiveWords ''b'']
   \<and> dom (embeddings indexAB) = {''a'', ''b''}"
  by (auto simp: index_eval)

text \<open>
  Claim C8. When two documents of the same content (the same document twice, for
  instance) are ingested one after the other, both without error, the chunk list holds
  the chunks of both ingestions, one entry per chunk and per ingestion, while the
  embedding map, keyed by the text of the chunk, holds one entry per distinct chunk text:
  the second ingestion adds none.
\<close>

theorem AddDocument_twice:
  assumes "Content d2 = Content d1"
    and "AddDocument C d1 (r, w) = (None, r1, w1)"
    and "AddDocument C d2 (r1, w1) = (None, r2, w2)"
  shows "documents r2 = documents r @ map (chunkDocument d1) (splitIntoChunks r (Content d1))
                          @ map (chunkDocument d2) (splitIntoChunks r (Content d1))
       \<and> dom (embeddings r1) = dom (embeddings r) \<union> set (splitIntoChunks r (Content d1))
       \<and> dom (embeddings r2) = dom (embeddings r1)
       \<and> length (documents r2) = length (documents r1) + length (splitIntoChunks r (Content d1))"
proof -
  let ?cs = "splitIntoChunks r (Content d1)"
  have a: "addLoop C d1 ?cs (r, w) = (None, r1, w1)"
    using assms(2) by (simp add: AddDocument_def)
  note 1 = addLoop_success [OF a]
  have "splitIntoChunks r1 (Content d2) = ?cs"
    using 1 assms(1) splitIntoChunks_cong [of r1 r "Content d1"] by simp
  then have b: "addLoop C d2 ?cs (r1, w1) = (None, r2, w2)"
    using assms(3) by (simp add: AddDocument_def)
  note 2 = addLoop_success [OF b]
  have ds: "documents r2 = documents r @ map (chunkDocument d1) ?cs @ map (chunkDocument d2) ?cs"
    using 1 2 by simp
  have e1: "dom (embeddings r1) = dom (embeddings r) \<union> set ?cs"
    using 1 by simp
  have e2: "dom (embeddings r2) = dom (embeddings r1)"
    using 2 e1 by blast
  have l: "length (documents r2) = length (documents r1) + length ?cs"
    using 2 by simp
  show ?thesis using ds e1 e2 l by blast
qed


theorem AddDocument_twice_witness:
  "Content twoWords = Content twoWords
   \<and> AddDocument (failingClients 99) twoWords (oneWordRAG, 0) = (None, indexAB, 2)
   \<and> AddDocument (failingClients 99) twoWords (indexAB, 2) = (None, indexABAB, 4)
   \<and> length (documents indexABAB)
       = length (documents indexAB) + length (splitIntoChunks oneWordRAG (Content twoWords))
   \<and> dom (embeddings indexABAB) = dom (embeddings indexAB)
   \<and> length (documents indexABAB) = 4 \<and> dom (embeddings indexABAB) = {''a'', ''b''}"
proof -
  have h1: "AddDocument (failingClients 99) twoWords (oneWordRAG, 0) = (None, indexAB, 2)"
    by (simp add: index_eval)
  have h2: "AddDocument (failingClients 99) twoWords (indexAB, 2) = (None, indexABAB, 4)"
    by (simp add: index_eval)
  have e: "length (documents indexABAB) = 4" "dom (embeddings indexABAB) = {''a'', ''b''}"
    by (auto simp: indexABAB_def)
  show ?thesis
    using h1 h2 e AddDocument_twice [OF refl h1 h2] by blast
qed

section \<open>findRelevantDocuments\<close>

declare topLoop.simps [simp del]

lemma topLoop_take:
  "i \<le> 3 \<Longrightarrow> topLoop i scores result = result @ map doc (drop i (take 3 scores))"
proof (induction i scores result rule: topLoop.induct)
  case (1 i scores result)
  show ?case
  proof (cases "i < length scores \<and> i < 3")
    case True
    then have "drop i (take 3 scores) = scores ! i # drop (i + 1) (take 3 scores)"
      by (simp add: Cons_nth_drop_Suc [symmetric])
    moreover have "topLoop i scores result = topLoop (i + 1) scores (result @ [doc (scores ! i)])"
      using True by (subst topLoop.simps) simp
    ultimately show ?thesis using "1.IH" True by simp
  next
    case False
    then have "drop i (take 3 scores) = []" using "1.prems" by auto
    moreover have "topLoop i scores result = result"
      using False by (subst topLoop.simps) auto
    ultimately show ?thesis by simp
  qed
qed

lemma scoreLoop_docs:
  "scoreLoop r q ds acc = Inr scores \<Longrightarrow> map doc scores = map doc acc @ ds"
proof (induction ds arbitrary: acc)
  case Nil then show ?case by simp
next
  case (Cons d ds)
  then show ?case by (auto simp: Let_def split: sum.splits)
qed

lemma findRelevantDocuments_take:
  "findRelevantDocuments r q = Inr ds \<Longrightarrow> ds = take 3 (documents r)"
proof -
  assume a: "findRelevantDocuments r q = Inr ds"
  then obtain scores where s: "scoreLoop r q (documents r) [] = Inr scores"
    and ds: "ds = topLoop 0 scores []"
    by (auto simp: findRelevantDocuments_def split: sum.splits)
  have "map doc scores = documents r"
    using scoreLoop_docs [OF s] by simp
  then have "take 3 (documents r) = map doc (take 3 scores)"
    using take_map [of 3 doc scores] by simp
  then show ?thesis using ds topLoop_take [of 0 scores "[]"] by simp
qed

text \<open>
  Claim C1: \<open>findRelevantDocuments\<close> returns at most 3 chunks, ordered by descending
  similarity, ties in ingestion order. The code computes the scores and does not use
  them: the sort that its comment announces is not there, and the result is the first
  three documents in ingestion order (\<open>findRelevantDocuments_take\<close>). On the index
  \<open>ascendingIndex\<close> and the query \<open>unitQuery\<close> the scores are \<open>0\<close>, \<open>1/4\<close>, \<open>1/2\<close>, \<open>1\<close>; the
  code returns the chunks \<open>w\<close>, \<open>x\<close>, \<open>y\<close> of scores \<open>0\<close>, \<open>1/4\<close>, \<open>1/2\<close>, in ascending order
  and without the best chunk \<open>z\<close>, where the claim requires \<open>z\<close>, \<open>y\<close>, \<open>x\<close>.
\<close>

theorem findRelevantDocuments_ignores_scores:
  "scoreLoop ascendingIndex unitQuery (documents ascendingIndex) []
     = Inr [\<lparr>doc = rankedDoc ''w'', score = Finite False 0\<rparr>,
            \<lparr>doc = rankedDoc ''x'', score = Finite False (1 / 4)\<rparr>,
            \<lparr>doc = rankedDoc ''y'', score = Finite False (1 / 2)\<rparr>,
            \<lparr>doc = rankedDoc ''z'', score = Finite False 1\<rparr>]
   \<and> findRelevantDocuments ascendingIndex unitQuery
     = Inr [rankedDoc ''w'', rankedDoc ''x'', rankedDoc ''y'']"
proof -
  have s: "scoreLoop ascendingIndex unitQuery (documents ascendingIndex) []
     = Inr [\<lparr>doc = rankedDoc ''w'', score = Finite False 0\<rparr>,
            \<lparr>doc = rankedDoc ''x'', score = Finite False (1 / 4)\<rparr>,
            \<lparr>doc = rankedDoc ''y'', score = Finite False (1 / 2)\<rparr>,
            \<lparr>doc = rankedDoc ''z'', score = Finite False 1\<rparr>]"
    by (simp add: ascendingIndex_def unitQuery_def float_eval rankedDoc_def)
  show ?thesis
    unfolding findRelevantDocuments_def s
    using s by (simp add: topLoop_take)
qed

section \<open>The setters\<close>

text \<open>
  Claim C7, as the code has it. The claim says that \<open>SetChunkSize\<close> and \<open>SetMaxTokens\<close>
  reject a value \<open>\<le> 0\<close>. They check nothing: each stores its argument, whatever it is,
  and changes no other field. The check is in their caller, which calls a setter only
  with a value \<open>> 0\<close>: a configuration that is positive before the caller's step is
  positive after it.
\<close>

theorem setters_store_any_value:
  "SetChunkSize n r = r\<lparr>chunkSize := n\<rparr> \<and> SetMaxTokens t r = r\<lparr>maxTokens := t\<rparr>
   \<and> (0 < chunkSize r \<and> 0 < maxTokens r \<longrightarrow>
        0 < chunkSize (configureRAG cs mt r) \<and> 0 < maxTokens (configureRAG cs mt r))"
  by (simp add: SetChunkSize_def SetMaxTokens_def configureRAG_def Let_def)

theorem setters_store_any_value_witness:
  "0 < chunkSize (NewRAG ''key'') \<and> 0 < maxTokens (NewRAG ''key'')
   \<and> 0 < chunkSize (configureRAG (- 5) 0 (NewRAG ''key''))
   \<and> 0 < maxTokens (configureRAG (- 5) 0 (NewRAG ''key''))
   \<and> chunkSize (configureRAG 500 0 (NewRAG ''key'')) = 500"
proof -
  have h: "0 < chunkSize (NewRAG ''key'') \<and> 0 < maxTokens (NewRAG ''key'')"
    by (simp add: NewRAG_def)
  have "chunkSize (configureRAG 500 0 (NewRAG ''key'')) = 500"
    by (simp add: configureRAG_def SetChunkSize_def NewRAG_def)
  with h setters_store_any_value [of 0 "NewRAG ''key''" 0 "- 5" 0] show ?thesis
    by blast
qed

text \<open>
  Counterexample to C7 as stated: after \<open>SetChunkSize(-5)\<close> the stored chunk size is
  \<open>-5\<close>, and after \<open>SetMaxTokens(0)\<close> the stored token budget is \<open>0\<close>.
\<close>

theorem setters_accept_nonpositive_counterexample:
  "chunkSize (SetChunkSize (- 5) (NewRAG ''key'')) = - 5
   \<and> maxTokens (SetMaxTokens 0 (NewRAG ''key'')) = 0"
  by (simp add: SetChunkSize_def SetMaxTokens_def NewRAG_def)

section \<open>getEmbedding in Claude mode\<close>

text \<open>
  Claim C9. When the \<open>RAG\<close> is in Claude mode (\<open>useOpenAI\<close> is false, as \<open>NewRAGWithClaude\<close>
  builds it), \<open>getEmbedding\<close> returns, for every text and without calling any service, an
  error with the non-empty message \<open>claudeEmbeddingError\<close>, and no vector.
\<close>

theorem getEmbedding_claude:
  assumes "\<not> useOpenAI r"
  shows "getEmbedding C t (r, w) = (Inl (Error claudeEmbeddingError), r, w)
       \<and> claudeEmbeddingError \<noteq> []"
  using assms by (simp add: getEmbedding_def claudeEmbeddingError_def)

theorem getEmbedding_claude_witness:
  "\<not> useOpenAI (NewRAGWithClaude ''key'')
   \<and> getEmbedding (failingClients 7) ''how does Kubernetes scale'' (NewRAGWithClaude ''key'', 0)
       = (Inl (Error claudeEmbeddingError), NewRAGWithClaude ''key'', 0)"
proof -
  have h: "\<not> useOpenAI (NewRAGWithClaude ''key'')"
    by (simp add: NewRAGWithClaude_def)
  from getEmbedding_claude [OF h, of "failingClients 7" "''how does Kubernetes scale''" 0]
  show ?thesis using h by blast
qed

section \<open>Query\<close>

lemma generateAnswer_rag: "fst (snd (generateAnswer C ctx q (r, w))) = r"
  by (auto simp: generateAnswer_def split: prod.splits sum.splits list.splits)

text \<open>
  Claim C10. \<open>Query\<close> leaves the \<open>RAG\<close> as it found it: however the call ends (an answer, an
  error, a panic in the ranking), the \<open>RAG\<close> of the final state is the \<open>RAG\<close> of the initial
  state, with its documents, its embeddings, its chunk size and its token budget.
\<close>

theorem Query_frame: "fst (snd (Query C question (r, w))) = r"
proof -
  obtain res r' w' where g: "getEmbedding C question (r, w) = (res, r', w')"
    by (metis prod_cases3)
  then have r': "r' = r" using getEmbedding_rag [of C question r w] by simp
  show ?thesis
  proof (cases res)
    case (Inl e)
    then show ?thesis using g r' by (cases e) (simp_all add: Query_def)
  next
    case (Inr qe)
    then show ?thesis
      using g r' generateAnswer_rag [of C _ question r w']
      by (cases "findRelevantDocuments r qe") (simp_all add: Query_def)
  qed
qed

theorem Query_frame_witness:
  "fst (snd (Query (failingClients 7) ''how does Kubernetes scale'' (indexAB, 0))) = indexAB
   \<and> fst (Query (failingClients 7) ''how does Kubernetes scale'' (indexAB, 0)) = Inr ''answer''"
proof -
  have "fst (Query (failingClients 7) ''how does Kubernetes scale'' (indexAB, 0)) = Inr ''answer''"
    by (simp add: Query_def findRelevantDocuments_def generateAnswer_def topLoop_take
        float_eval index_eval)
  with Query_frame [of "failingClients 7" "''how does Kubernetes scale''" indexAB 0]
  show ?thesis by blast
qed

end
